theory Spec2Isabelle
  imports Main "HOL-Library.Word"
begin

section \<open>Data model of \<^verbatim>\<open>etl::bresenham_line\<close>\<close>

text \<open>
  The class template takes the coordinate type \<^verbatim>\<open>TCoordinate\<close> (anything with integral
  members \<^verbatim>\<open>x\<close> and \<^verbatim>\<open>y\<close>) and the working type \<^verbatim>\<open>TWorking\<close>, by default \<^verbatim>\<open>int\<close>.

  The coordinate type belongs to the caller; its members are modelled on \<^typ>\<open>int\<close>.

  The working type is a signed machine integer of some width: a word \<^typ>\<open>'w word\<close>, read
  in two's complement by \<^const>\<open>sint\<close>. Every member of the class declared \<^verbatim>\<open>working_t\<close> is
  such a word, so \<^verbatim>\<open>dx *= 2\<close>, \<^verbatim>\<open>dx + 1\<close>, the updates of \<^verbatim>\<open>balance\<close> and the decrement of
  \<^verbatim>\<open>n_coordinates_remaining\<close> wrap around at the width of the type, and the comparisons
  \<^verbatim>\<open>dx < dy\<close> and \<^verbatim>\<open>balance >= 0\<close> are signed. (C++ leaves the overflow of \<^verbatim>\<open>int\<close> itself
  undefined; wrapping is what the conversion back to a narrower working type does, and
  what the arithmetic of the machine does.)
\<close>

record coord =
  x :: int
  y :: int

text \<open>
  The data members of the class, in the order of their declaration. The working type is the
  parameter of the record; every operation below takes it to be a word.
\<close>

record 'working bresenham_line =
  first :: coord
  coordinate :: coord
  x_increment :: 'working
  y_increment :: 'working
  dx :: 'working
  dy :: 'working
  total_n_coordinates :: 'working
  n_coordinates_remaining :: 'working
  balance :: 'working
  do_minor_increment :: bool

text \<open>
  An iterator holds one pointer, \<^verbatim>\<open>p_bresenham_line\<close>: null, or the address of the line
  that made it. The model has one line, so the pointer is one of two values.
\<close>

datatype iterator = Null_ptr | Line_ptr

text \<open>Following a null pointer is the only way an operation of the class can go wrong.\<close>

datatype fault = Null_dereference

section \<open>The operations\<close>

text \<open>
  \<^verbatim>\<open>is_y_major_axis\<close>: \<^verbatim>\<open>return dx < dy;\<close> on two values of the working type. The source
  returns the comparison as an \<^verbatim>\<open>int\<close> and only ever branches on it.
\<close>

definition is_y_major_axis :: "'w::len word bresenham_line \<Rightarrow> bool" where
  "is_y_major_axis g = (sint (dx g) < sint (dy g))"

text \<open>
  The constructor. The member initialiser list sets seven members; the two differences
  are computed on the coordinates and stored in the working type.
  \<^verbatim>\<open>total_n_coordinates\<close>, \<^verbatim>\<open>n_coordinates_remaining\<close> and \<^verbatim>\<open>balance\<close> have no initialiser
  and are assigned in the body before they are read (they stand at 0 until then).
  The body's assignments are kept in the order of the source.
\<close>

definition member_init :: "coord \<Rightarrow> coord \<Rightarrow> 'w::len word bresenham_line" where
  "member_init first' last' =
     \<lparr> first = first',
       coordinate = first',
       x_increment = (if x last' < x first' then - 1 else 1),
       y_increment = (if y last' < y first' then - 1 else 1),
       dx = word_of_int (if x last' < x first' then x first' - x last' else x last' - x first'),
       dy = word_of_int (if y last' < y first' then y first' - y last' else y last' - y first'),
       total_n_coordinates = 0,
       n_coordinates_remaining = 0,
       balance = 0,
       do_minor_increment = False \<rparr>"

definition bresenham_line_new :: "coord \<Rightarrow> coord \<Rightarrow> 'w::len word bresenham_line" where
  "bresenham_line_new first' last' =
     (let g = member_init first' last';
          g = (if is_y_major_axis g
               then (let g = g\<lparr>total_n_coordinates := dy g + 1\<rparr>;
                         g = g\<lparr>dx := dx g * 2\<rparr>;
                         g = g\<lparr>balance := dx g - dy g\<rparr>
                     in g\<lparr>dy := dy g * 2\<rparr>)
               else (let g = g\<lparr>total_n_coordinates := dx g + 1\<rparr>;
                         g = g\<lparr>dy := dy g * 2\<rparr>;
                         g = g\<lparr>balance := dy g - dx g\<rparr>
                     in g\<lparr>dx := dx g * 2\<rparr>))
      in g\<lparr>n_coordinates_remaining := total_n_coordinates g - 1\<rparr>)"

text \<open>
  \<^verbatim>\<open>next\<close>: calculate the next point. An increment of the working type is added to a member
  of the coordinate.
\<close>

definition next_step :: "'w::len word bresenham_line \<Rightarrow> 'w word bresenham_line" where
  "next_step g =
     (let g = (if is_y_major_axis g
               then (let g = (if do_minor_increment g
                              then g\<lparr>coordinate := (coordinate g)\<lparr>x := x (coordinate g) + sint (x_increment g)\<rparr>,
                                     balance := balance g - dy g\<rparr>
                              else g);
                         g = g\<lparr>coordinate := (coordinate g)\<lparr>y := y (coordinate g) + sint (y_increment g)\<rparr>\<rparr>
                     in g\<lparr>balance := balance g + dx g\<rparr>)
               else (let g = (if do_minor_increment g
                              then g\<lparr>coordinate := (coordinate g)\<lparr>y := y (coordinate g) + sint (y_increment g)\<rparr>,
                                     balance := balance g - dx g\<rparr>
                              else g);
                         g = g\<lparr>coordinate := (coordinate g)\<lparr>x := x (coordinate g) + sint (x_increment g)\<rparr>\<rparr>
                     in g\<lparr>balance := balance g + dy g\<rparr>));
          g = g\<lparr>n_coordinates_remaining := n_coordinates_remaining g - 1\<rparr>
      in g\<lparr>do_minor_increment := (0 \<le> sint (balance g))\<rparr>)"

text \<open>\<^verbatim>\<open>get_coordinate\<close>: the current coordinate.\<close>

definition get_coordinate :: "'w::len word bresenham_line \<Rightarrow> coord" where
  "get_coordinate g = coordinate g"

text \<open>
  \<^verbatim>\<open>begin\<close> assigns two members and returns an iterator to the line; \<^verbatim>\<open>end\<close> returns a
  default-constructed iterator, whose pointer is null.
\<close>

definition begin_line :: "'w::len word bresenham_line \<Rightarrow> iterator \<times> 'w word bresenham_line" where
  "begin_line g =
     (let g = g\<lparr>n_coordinates_remaining := total_n_coordinates g - 1\<rparr>;
          g = g\<lparr>coordinate := first g\<rparr>
      in (Line_ptr, g))"

definition end_line :: "'w::len word bresenham_line \<Rightarrow> iterator" where
  "end_line g = Null_ptr"

text \<open>
  \<^verbatim>\<open>size\<close> and \<^verbatim>\<open>count\<close> are \<^verbatim>\<open>const\<close> member functions: they return a value and the line
  as they found it. The value is computed in the working type and converted to \<^verbatim>\<open>size_t\<close>,
  an unsigned word \<^typ>\<open>'s word\<close> of the platform's width: the conversion of a signed value
  keeps it modulo \<open>2 ^ LENGTH('s)\<close>.
\<close>

definition size_line :: "'w::len word bresenham_line \<Rightarrow> 's::len word \<times> 'w word bresenham_line" where
  "size_line g = (word_of_int (sint (total_n_coordinates g)), g)"

definition count_line :: "'w::len word bresenham_line \<Rightarrow> 's::len word \<times> 'w word bresenham_line" where
  "count_line g =
     (word_of_int (sint (total_n_coordinates g - n_coordinates_remaining g)), g)"

text \<open>
  The iterator's operators. \<^verbatim>\<open>operator ++\<close> and \<^verbatim>\<open>operator *\<close> read through the pointer;
  on a null pointer that is the fault.
\<close>

definition iterator_incr ::
  "iterator \<Rightarrow> 'w::len word bresenham_line \<Rightarrow> fault + iterator \<times> 'w word bresenham_line" where
  "iterator_incr it g =
     (case it of
        Null_ptr \<Rightarrow> Inl Null_dereference
      | Line_ptr \<Rightarrow>
          if n_coordinates_remaining g = 0 then Inr (Null_ptr, g)
          else Inr (Line_ptr, next_step g))"

definition iterator_deref :: "iterator \<Rightarrow> 'w::len word bresenham_line \<Rightarrow> fault + coord" where
  "iterator_deref it g =
     (case it of
        Null_ptr \<Rightarrow> Inl Null_dereference
      | Line_ptr \<Rightarrow> Inr (get_coordinate g))"

definition iterator_eq :: "iterator \<Rightarrow> iterator \<Rightarrow> bool" where
  "iterator_eq lhs rhs = (lhs = rhs)"

definition iterator_neq :: "iterator \<Rightarrow> iterator \<Rightarrow> bool" where
  "iterator_neq lhs rhs = (\<not> iterator_eq lhs rhs)"

section \<open>Traversal\<close>

text \<open>
  A full traversal is the loop
  \<^verbatim>\<open>for (it = line.begin(); it != line.end(); ++it) out.push_back(*it);\<close>
  It ends when the iterator compares equal to the end iterator; whether it does is
  part of what is proved, so the loop is a partial function: \<open>None\<close> is a loop that
  never ends, \<open>Some (Inl f)\<close> one stopped by a fault, and \<open>Some (Inr (ps, g))\<close> one that
  produced the coordinates \<open>ps\<close> and left the line in state \<open>g\<close>.
\<close>

partial_function (option) drain ::
  "iterator \<Rightarrow> 'w::len word bresenham_line \<Rightarrow> coord list \<Rightarrow>
     (fault + coord list \<times> 'w word bresenham_line) option"
where
  "drain it g out =
     (if iterator_neq it (end_line g)
      then (case iterator_deref it g of
              Inl f \<Rightarrow> Some (Inl f)
            | Inr c \<Rightarrow>
                (case iterator_incr it g of
                   Inl f \<Rightarrow> Some (Inl f)
                 | Inr (it', g') \<Rightarrow> drain it' g' (out @ [c])))
      else Some (Inr (out, g)))"

definition traverse ::
  "'w::len word bresenham_line \<Rightarrow> (fault + coord list \<times> 'w word bresenham_line) option" where
  "traverse g = (case begin_line g of (it, g') \<Rightarrow> drain it g' [])"

declare drain.simps [code]

text \<open>
  The states a line constructed from \<open>a\<close> and \<open>b\<close> can be in: as constructed, after
  \<^verbatim>\<open>begin\<close>, and after \<^verbatim>\<open>++\<close> on an iterator to it.
\<close>

inductive line_state :: "coord \<Rightarrow> coord \<Rightarrow> 'w::len word bresenham_line \<Rightarrow> bool" for a b where
  constructed: "line_state a b (bresenham_line_new a b)"
| rewound: "line_state a b g \<Longrightarrow> begin_line g = (it, g') \<Longrightarrow> line_state a b g'"
| advanced: "line_state a b g \<Longrightarrow> iterator_incr Line_ptr g = Inr (it, g') \<Longrightarrow> line_state a b g'"

text \<open>The coordinates a traversal of \<open>g\<close> produces, when it ends without a fault.\<close>

definition produced :: "'w::len word bresenham_line \<Rightarrow> coord list option" where
  "produced g = (case traverse g of Some (Inr (ps, g')) \<Rightarrow> Some ps | _ \<Rightarrow> None)"

text \<open>
  \<open>trace g k\<close> is the current coordinate after \<open>k\<close> calls of \<^verbatim>\<open>next\<close> from state \<open>g\<close>.
\<close>

definition trace :: "'w::len word bresenham_line \<Rightarrow> nat \<Rightarrow> coord" where
  "trace g k = coordinate ((next_step ^^ k) g)"

text \<open>
  Order along the line: \<open>in_order g p q\<close> says that from \<open>p\<close> to \<open>q\<close> the major-axis component
  moves strictly in the direction of its increment, and the minor-axis component does not move
  against its own.
\<close>

definition advances :: "int \<Rightarrow> int \<Rightarrow> int \<Rightarrow> bool" where
  "advances inc u v = (if inc = 1 then u < v else v < u)"

definition keeps_direction :: "int \<Rightarrow> int \<Rightarrow> int \<Rightarrow> bool" where
  "keeps_direction inc u v = (if inc = 1 then u \<le> v else v \<le> u)"

definition in_order :: "'w::len word bresenham_line \<Rightarrow> coord \<Rightarrow> coord \<Rightarrow> bool" where
  "in_order g p q =
     (if is_y_major_axis g
      then advances (sint (y_increment g)) (y p) (y q) \<and>
           keeps_direction (sint (x_increment g)) (x p) (x q)
      else advances (sint (x_increment g)) (x p) (x q) \<and>
           keeps_direction (sint (y_increment g)) (y p) (y q))"

text \<open>
  A line with major delta \<open>D\<close> and minor delta \<open>d\<close> passes exactly half-way between two grid
  points at step \<open>k\<close> when \<open>2 * D\<close> divides \<open>2 * d * k + D\<close>. \<open>tie_free D d\<close>: this happens at
  no step.
\<close>

definition tie_free :: "int \<Rightarrow> int \<Rightarrow> bool" where
  "tie_free D d = (\<forall>k\<in>{0..D}. \<not> 2 * D dvd 2 * d * k + D)"

text \<open>
  Exchanging the roles of \<open>x\<close> and \<open>y\<close>, in a coordinate and in the state of a line. Off the
  diagonal the class treats both axes alike, so what is proved for a line whose major axis
  is X carries over to the lines whose major axis is Y.
\<close>

definition flip :: "coord \<Rightarrow> coord" where
  "flip p = \<lparr>x = y p, y = x p\<rparr>"

definition flip_line :: "'w::len word bresenham_line \<Rightarrow> 'w word bresenham_line" where
  "flip_line g =
     \<lparr> first = flip (first g),
       coordinate = flip (coordinate g),
       x_increment = y_increment g,
       y_increment = x_increment g,
       dx = dy g,
       dy = dx g,
       total_n_coordinates = total_n_coordinates g,
       n_coordinates_remaining = n_coordinates_remaining g,
       balance = balance g,
       do_minor_increment = do_minor_increment g \<rparr>"

section \<open>Signed values of the working type\<close>

lemma sint_of_int_fits:
  "- (2 ^ (LENGTH('w) - 1)) \<le> k \<Longrightarrow> k < 2 ^ (LENGTH('w) - 1) \<Longrightarrow>
   sint (word_of_int k :: 'w::len word) = k"
  by (simp add: sint_sbintrunc' signed_take_bit_int_eq_self)

lemma sint_add_fits:
  fixes u v :: "'w::len word"
  shows "- (2 ^ (LENGTH('w) - 1)) \<le> sint u + sint v \<Longrightarrow> sint u + sint v < 2 ^ (LENGTH('w) - 1) \<Longrightarrow>
   sint (u + v) = sint u + sint v"
  by (simp add: sint_word_ariths signed_take_bit_int_eq_self)

lemma sint_diff_fits:
  fixes u v :: "'w::len word"
  shows "- (2 ^ (LENGTH('w) - 1)) \<le> sint u - sint v \<Longrightarrow> sint u - sint v < 2 ^ (LENGTH('w) - 1) \<Longrightarrow>
   sint (u - v) = sint u - sint v"
  by (simp add: sint_word_ariths signed_take_bit_int_eq_self)

lemma sint_increment:
  "sint (1 :: 'w::len word) = 1 \<or> sint (1 :: 'w word) = - 1"
  "sint (- 1 :: 'w::len word) = - 1"
  by (simp_all add: signed_1)

lemma sint_one_wide:
  "1 < (2 :: int) ^ (LENGTH('w) - 1) \<Longrightarrow> sint (1 :: 'w::len word) = 1"
  by (cases "LENGTH('w) = 1") (simp_all add: signed_1)

lemma sint_double_fits:
  assumes "0 \<le> k" and "2 * k < 2 ^ (LENGTH('w) - 1)"
  shows "sint (word_of_int k * 2 :: 'w::len word) = 2 * k"
proof -
  have e: "(word_of_int k * 2 :: 'w word) = word_of_int (2 * k)"
    by simp
  have "- (2 ^ (LENGTH('w) - 1)) \<le> (0 :: int)"
    by simp
  also have "0 \<le> 2 * k"
    using assms(1) by simp
  finally have "- (2 ^ (LENGTH('w) - 1)) \<le> 2 * k" .
  then show ?thesis
    unfolding e using assms(2) by (rule sint_of_int_fits)
qed

lemma sint_nonneg_fits:
  assumes "0 \<le> k" and "k < 2 ^ (LENGTH('w) - 1)"
  shows "sint (word_of_int k :: 'w::len word) = k"
proof -
  have "- (2 ^ (LENGTH('w) - 1)) \<le> (0 :: int)"
    by simp
  also note assms(1)
  finally show ?thesis
    using assms(2) by (rule sint_of_int_fits)
qed

lemma pos_sint_unat:
  fixes t :: "'w::len word"
  assumes "0 < sint t"
  shows "int (Suc (unat (t - 1))) = sint t"
proof -
  from assms have ne: "t \<noteq> 0" by auto
  have "sint t < 2 ^ (LENGTH('w) - 1)"
    by (rule sint_lt)
  also have "(2 :: int) ^ (LENGTH('w) - 1) \<le> 2 ^ LENGTH('w)"
    by (rule power_increasing) simp_all
  finally have "take_bit LENGTH('w) (sint t) = sint t"
    using assms by (simp add: take_bit_int_eq_self)
  then have u: "uint t = sint t"
    by (simp only: uint_sint)
  then have "0 < unat t"
    using ne by (simp add: unat_gt_0)
  then have "int (Suc (unat (t - 1))) = int (unat t)"
    using ne by (simp add: unat_minus_one)
  also have "\<dots> = sint t"
    using u by (simp only: uint_nat)
  finally show ?thesis .
qed

lemma uint_nonneg_fits:
  assumes "0 \<le> k" and "k < 2 ^ LENGTH('s)"
  shows "uint (word_of_int k :: 's::len word) = k"
  using assms by (simp only: uint_word_of_int mod_pos_pos_trivial)

section \<open>One step\<close>

lemma next_step_unchanged [simp]:
  "first (next_step g) = first g"
  "x_increment (next_step g) = x_increment g"
  "y_increment (next_step g) = y_increment g"
  "dx (next_step g) = dx g"
  "dy (next_step g) = dy g"
  "total_n_coordinates (next_step g) = total_n_coordinates g"
  by (simp_all add: next_step_def Let_def)

lemma next_step_remaining [simp]:
  "n_coordinates_remaining (next_step g) = n_coordinates_remaining g - 1"
  by (simp add: next_step_def Let_def)

lemma next_step_pending [simp]:
  "do_minor_increment (next_step g) = (0 \<le> sint (balance (next_step g)))"
  by (simp add: next_step_def Let_def)

lemma next_step_major [simp]: "is_y_major_axis (next_step g) = is_y_major_axis g"
  by (simp add: is_y_major_axis_def)

lemma next_step_x_major:
  assumes "\<not> is_y_major_axis g"
  shows "x (coordinate (next_step g)) = x (coordinate g) + sint (x_increment g)"
    and "y (coordinate (next_step g)) =
           y (coordinate g) + (if do_minor_increment g then sint (y_increment g) else 0)"
    and "balance (next_step g) =
           (if do_minor_increment g then balance g - dx g else balance g) + dy g"
  using assms by (simp_all add: next_step_def Let_def)

lemma next_step_y_major:
  assumes "is_y_major_axis g"
  shows "y (coordinate (next_step g)) = y (coordinate g) + sint (y_increment g)"
    and "x (coordinate (next_step g)) =
           x (coordinate g) + (if do_minor_increment g then sint (x_increment g) else 0)"
    and "balance (next_step g) =
           (if do_minor_increment g then balance g - dy g else balance g) + dx g"
  using assms by (simp_all add: next_step_def Let_def)

lemma funpow_next_unchanged [simp]:
  "first ((next_step ^^ k) g) = first g"
  "x_increment ((next_step ^^ k) g) = x_increment g"
  "y_increment ((next_step ^^ k) g) = y_increment g"
  "dx ((next_step ^^ k) g) = dx g"
  "dy ((next_step ^^ k) g) = dy g"
  "total_n_coordinates ((next_step ^^ k) g) = total_n_coordinates g"
  "is_y_major_axis ((next_step ^^ k) g) = is_y_major_axis g"
  by (induction k) simp_all

section \<open>What the constructor establishes\<close>

lemma new_fields:
  "first (bresenham_line_new a b) = a"
  "coordinate (bresenham_line_new a b) = a"
  "x_increment (bresenham_line_new a b) = (if x b < x a then - 1 else 1)"
  "y_increment (bresenham_line_new a b) = (if y b < y a then - 1 else 1)"
  "dx (bresenham_line_new a b) = word_of_int \<bar>x b - x a\<bar> * 2"
  "dy (bresenham_line_new a b) = word_of_int \<bar>y b - y a\<bar> * 2"
  "do_minor_increment (bresenham_line_new a b) = False"
  "n_coordinates_remaining (bresenham_line_new a b) = total_n_coordinates (bresenham_line_new a b) - 1"
  by (simp_all add: bresenham_line_new_def member_init_def is_y_major_axis_def Let_def)

lemma new_counts:
  "total_n_coordinates (bresenham_line_new a b :: 'w::len word bresenham_line) =
     (if sint (word_of_int \<bar>x b - x a\<bar> :: 'w word) < sint (word_of_int \<bar>y b - y a\<bar> :: 'w word)
      then word_of_int \<bar>y b - y a\<bar> + 1 else word_of_int \<bar>x b - x a\<bar> + 1)"
  "balance (bresenham_line_new a b :: 'w::len word bresenham_line) =
     (if sint (word_of_int \<bar>x b - x a\<bar> :: 'w word) < sint (word_of_int \<bar>y b - y a\<bar> :: 'w word)
      then word_of_int \<bar>x b - x a\<bar> * 2 - word_of_int \<bar>y b - y a\<bar>
      else word_of_int \<bar>y b - y a\<bar> * 2 - word_of_int \<bar>x b - x a\<bar>)"
  by (simp_all add: bresenham_line_new_def member_init_def is_y_major_axis_def Let_def)

lemma line_state_fields:
  assumes "line_state a b g"
  shows "first g = a"
    and "x_increment g = (if x b < x a then - 1 else 1)"
    and "y_increment g = (if y b < y a then - 1 else 1)"
    and "dx g = dx (bresenham_line_new a b)"
    and "dy g = dy (bresenham_line_new a b)"
    and "total_n_coordinates g = total_n_coordinates (bresenham_line_new a b)"
  using assms
  by (induction rule: line_state.induct)
     (auto simp: new_fields begin_line_def iterator_incr_def Let_def split: if_splits)

lemma line_state_increments:
  assumes "line_state a b g"
  shows "sint (x_increment g) = 1 \<or> sint (x_increment g) = - 1"
    and "sint (y_increment g) = 1 \<or> sint (y_increment g) = - 1"
  using sint_increment by (auto simp: line_state_fields(2,3) [OF assms])

section \<open>The traversal loop in closed form\<close>

lemma drain_null: "drain Null_ptr g out = Some (Inr (out, g))"
  by (subst drain.simps) (simp add: iterator_neq_def iterator_eq_def end_line_def)

lemma drain_line_step:
  "drain Line_ptr g out =
     (if n_coordinates_remaining g = 0 then Some (Inr (out @ [coordinate g], g))
      else drain Line_ptr (next_step g) (out @ [coordinate g]))"
  by (subst drain.simps)
     (simp add: iterator_neq_def iterator_eq_def end_line_def iterator_deref_def
        iterator_incr_def get_coordinate_def drain_null)

lemma trace_0 [simp]: "trace g 0 = coordinate g"
  by (simp add: trace_def)

lemma trace_Suc: "trace g (Suc k) = trace (next_step g) k"
  by (simp add: trace_def funpow_swap1)

lemma drain_line:
  "unat (n_coordinates_remaining g) = n \<Longrightarrow>
   drain Line_ptr g out =
     Some (Inr (out @ map (trace g) [0..<Suc n], (next_step ^^ n) g))"
proof (induction n arbitrary: g out)
  case 0
  then have "n_coordinates_remaining g = 0"
    by (simp add: unat_eq_0)
  then show ?case by (subst drain_line_step) simp
next
  case (Suc n)
  then have ne: "n_coordinates_remaining g \<noteq> 0"
    by auto
  then have "unat (n_coordinates_remaining (next_step g)) = n"
    using Suc.prems by (simp add: unat_minus_one)
  note ih = Suc.IH [OF this]
  have "map (trace g) [0..<Suc (Suc n)] = coordinate g # map (trace (next_step g)) [0..<Suc n]"
    by (simp only: upt_conv_Cons [of 0 "Suc (Suc n)"] map_Suc_upt [symmetric]
          list.map map_map o_def trace_Suc)
       simp
  with ih ne show ?case
    by (subst drain_line_step) (simp add: funpow_swap1)
qed

lemma begin_line_new:
  "begin_line (bresenham_line_new a b) = (Line_ptr, bresenham_line_new a b)"
  by (simp add: begin_line_def bresenham_line_new_def member_init_def Let_def)

lemma traverse_eq:
  "traverse g =
     Some (Inr (map (trace (snd (begin_line g))) [0..<Suc (unat (total_n_coordinates g - 1))],
                (next_step ^^ unat (total_n_coordinates g - 1)) (snd (begin_line g))))"
proof -
  let ?g = "snd (begin_line g)"
  have r: "unat (n_coordinates_remaining ?g) = unat (total_n_coordinates g - 1)"
    by (simp add: begin_line_def Let_def)
  have "traverse g = drain Line_ptr ?g []"
    by (simp add: traverse_def begin_line_def Let_def)
  then show ?thesis
    by (simp only: drain_line [OF r] append_Nil)
qed

lemma traverse_new:
  fixes a b :: coord
  defines "g \<equiv> bresenham_line_new a b :: 'w::len word bresenham_line"
  shows "traverse g =
     Some (Inr (map (trace g) [0..<Suc (unat (n_coordinates_remaining g))],
                (next_step ^^ unat (n_coordinates_remaining g)) g))"
  unfolding g_def
  by (simp only: traverse_eq begin_line_new snd_conv new_fields(8))

section \<open>Length, degenerate line, end of the sequence, major axis\<close>




text \<open>
  C8. With \<open>first = last = p\<close> the traversal ends without a fault, produces exactly \<open>[p]\<close>,
  and the length is 1. No operation overflows here, whatever the working type; the width
  of a signed integer type is even, which the type \<open>'w bit0\<close> says.
\<close>

theorem degenerate_line:
  "traverse (bresenham_line_new p p :: 'w::len bit0 word bresenham_line) =
     Some (Inr ([p], bresenham_line_new p p)) \<and>
   fst (size_line (bresenham_line_new p p :: 'w bit0 word bresenham_line)
          :: 's::len word \<times> 'w bit0 word bresenham_line) = 1"
proof -
  let ?n = "bresenham_line_new p p :: 'w bit0 word bresenham_line"
  have t: "total_n_coordinates ?n = 1"
    by (simp add: new_counts)
  then have r: "n_coordinates_remaining ?n = 0"
    by (simp add: new_fields(8))
  have "traverse ?n = Some (Inr ([p], ?n))"
    by (simp only: traverse_new r) (simp add: new_fields)
  moreover have "sint (1 :: 'w bit0 word) = 1"
    by (simp add: signed_1)
  ultimately show ?thesis
    by (simp add: size_line_def t)
qed

text \<open>
  C9. In any state of a line with no points remaining, advancing an iterator to the line is
  not a fault and produces no coordinate: the iterator becomes the end iterator and the line
  is unchanged. Dereferencing the end iterator is the fault.
\<close>

theorem advance_past_end:
  assumes "n_coordinates_remaining g = 0"
  shows "iterator_incr Line_ptr g = Inr (end_line g, g) \<and>
         iterator_eq (end_line g) (end_line g) \<and>
         iterator_deref (end_line g) g = Inl Null_dereference"
  using assms
  by (simp add: iterator_incr_def end_line_def iterator_eq_def iterator_deref_def)

theorem advance_past_end_witness:
  "n_coordinates_remaining (bresenham_line_new \<lparr>x = 0, y = 0\<rparr> \<lparr>x = 0, y = 0\<rparr> :: 32 word bresenham_line) = 0 \<and>
   iterator_incr Line_ptr (bresenham_line_new \<lparr>x = 0, y = 0\<rparr> \<lparr>x = 0, y = 0\<rparr> :: 32 word bresenham_line) =
     Inr (Null_ptr, bresenham_line_new \<lparr>x = 0, y = 0\<rparr> \<lparr>x = 0, y = 0\<rparr>) \<and>
   iterator_deref Null_ptr (bresenham_line_new \<lparr>x = 0, y = 0\<rparr> \<lparr>x = 0, y = 0\<rparr> :: 32 word bresenham_line) =
     Inl Null_dereference"
proof -
  let ?n = "bresenham_line_new \<lparr>x = 0, y = 0\<rparr> \<lparr>x = 0, y = 0\<rparr> :: 32 word bresenham_line"
  have r: "n_coordinates_remaining ?n = 0"
    by (simp add: new_fields(8) new_counts)
  from advance_past_end [OF r] r show ?thesis
    by (simp add: end_line_def)
qed




section \<open>One application of the step\<close>



section \<open>Order of the produced coordinates\<close>

lemma trace_step: "trace g (Suc k) = coordinate (next_step ((next_step ^^ k) g))"
  by (simp add: trace_def)

lemma trace_x_major_x:
  "\<not> is_y_major_axis g \<Longrightarrow> x (trace g k) = x (coordinate g) + int k * sint (x_increment g)"
proof (induction k)
  case 0
  show ?case by simp
next
  case (Suc k)
  then show ?case
    by (simp add: trace_step next_step_x_major(1) algebra_simps) (simp add: trace_def)
qed

lemma trace_y_major_y:
  "is_y_major_axis g \<Longrightarrow> y (trace g k) = y (coordinate g) + int k * sint (y_increment g)"
proof (induction k)
  case 0
  show ?case by simp
next
  case (Suc k)
  then show ?case
    by (simp add: trace_step next_step_y_major(1) algebra_simps) (simp add: trace_def)
qed

lemma trace_x_major_y:
  assumes "\<not> is_y_major_axis g" and "i \<le> j"
  shows "\<exists>n. 0 \<le> n \<and> y (trace g j) = y (trace g i) + n * sint (y_increment g)"
  using assms(2)
proof (induction rule: dec_induct)
  case base
  have "y (trace g i) = y (trace g i) + 0 * sint (y_increment g)" by simp
  then show ?case by blast
next
  case (step j)
  then obtain n where n: "0 \<le> n" "y (trace g j) = y (trace g i) + n * sint (y_increment g)"
    by blast
  have "y (trace g (Suc j)) = y (trace g j) \<or>
        y (trace g (Suc j)) = y (trace g j) + sint (y_increment g)"
    using assms(1) by (simp add: trace_step next_step_x_major(2)) (simp add: trace_def)
  then show ?case
  proof
    assume "y (trace g (Suc j)) = y (trace g j)"
    with n show ?thesis by auto
  next
    assume "y (trace g (Suc j)) = y (trace g j) + sint (y_increment g)"
    with n have "0 \<le> n + 1 \<and> y (trace g (Suc j)) = y (trace g i) + (n + 1) * sint (y_increment g)"
      by (simp add: algebra_simps)
    then show ?thesis by blast
  qed
qed

lemma trace_y_major_x:
  assumes "is_y_major_axis g" and "i \<le> j"
  shows "\<exists>n. 0 \<le> n \<and> x (trace g j) = x (trace g i) + n * sint (x_increment g)"
  using assms(2)
proof (induction rule: dec_induct)
  case base
  have "x (trace g i) = x (trace g i) + 0 * sint (x_increment g)" by simp
  then show ?case by blast
next
  case (step j)
  then obtain n where n: "0 \<le> n" "x (trace g j) = x (trace g i) + n * sint (x_increment g)"
    by blast
  have "x (trace g (Suc j)) = x (trace g j) \<or>
        x (trace g (Suc j)) = x (trace g j) + sint (x_increment g)"
    using assms(1) by (simp add: trace_step next_step_y_major(2)) (simp add: trace_def)
  then show ?case
  proof
    assume "x (trace g (Suc j)) = x (trace g j)"
    with n show ?thesis by auto
  next
    assume "x (trace g (Suc j)) = x (trace g j) + sint (x_increment g)"
    with n have "0 \<le> n + 1 \<and> x (trace g (Suc j)) = x (trace g i) + (n + 1) * sint (x_increment g)"
      by (simp add: algebra_simps)
    then show ?thesis by blast
  qed
qed

lemma trace_in_order:
  assumes "sint (x_increment g) = 1 \<or> sint (x_increment g) = - 1"
    and "sint (y_increment g) = 1 \<or> sint (y_increment g) = - 1"
    and "i < j"
  shows "in_order g (trace g i) (trace g j)"
proof (cases "is_y_major_axis g")
  case True
  from trace_y_major_x [OF True, of i j] assms(3)
  obtain n where n: "0 \<le> n" "x (trace g j) = x (trace g i) + n * sint (x_increment g)"
    by auto
  have k: "keeps_direction (sint (x_increment g)) (x (trace g i)) (x (trace g j))"
    using assms(1) n by (auto simp: keeps_direction_def)
  have "advances (sint (y_increment g)) (y (trace g i)) (y (trace g j))"
    using assms(2,3) by (auto simp: advances_def trace_y_major_y [OF True])
  with k True show ?thesis
    by (simp add: in_order_def)
next
  case False
  from trace_x_major_y [OF False, of i j] assms(3)
  obtain n where n: "0 \<le> n" "y (trace g j) = y (trace g i) + n * sint (y_increment g)"
    by auto
  have k: "keeps_direction (sint (y_increment g)) (y (trace g i)) (y (trace g j))"
    using assms(2) n by (auto simp: keeps_direction_def)
  have "advances (sint (x_increment g)) (x (trace g i)) (x (trace g j))"
    using assms(1,3) by (auto simp: advances_def trace_x_major_x [OF False])
  with k False show ?thesis
    by (simp add: in_order_def)
qed

lemma in_order_neq: "in_order g p q \<Longrightarrow> p \<noteq> q"
  by (auto simp: in_order_def advances_def split: if_splits)

lemma sorted_wrt_map_upt:
  "(\<And>i j. i < j \<Longrightarrow> j < n \<Longrightarrow> P (f i) (f j)) \<Longrightarrow> sorted_wrt P (map f [0..<n])"
  by (simp add: sorted_wrt_iff_nth_less)

lemma begin_line_fields:
  "x_increment (snd (begin_line g)) = x_increment g"
  "y_increment (snd (begin_line g)) = y_increment g"
  "dx (snd (begin_line g)) = dx g"
  "dy (snd (begin_line g)) = dy g"
  by (simp_all add: begin_line_def Let_def)

lemma in_order_begin: "in_order (snd (begin_line g)) = in_order g"
  by (simp add: in_order_def is_y_major_axis_def begin_line_fields fun_eq_iff)



section \<open>Where the first traversal leaves the line\<close>

text \<open>
  The three evaluations below take the working type at its default, \<^verbatim>\<open>int\<close>, as a 32-bit
  word; the values are far from its limits.
\<close>

text \<open>
  C1. The first produced coordinate is \<open>first\<close>, but on the diagonal from (0,0) to (1,1) the
  traversal produces (0,0) and then (1,0): the coordinate after \<open>size - 1 = 1\<close> advance is not
  \<open>last\<close>. The constructor leaves \<^verbatim>\<open>do_minor_increment\<close> false whatever the sign of the initial
  balance, so the first step never moves the minor axis.
\<close>

theorem diagonal_misses_last:
  "traverse (bresenham_line_new \<lparr>x = 0, y = 0\<rparr> \<lparr>x = 1, y = 1\<rparr> :: 32 word bresenham_line) =
     Some (Inr ([\<lparr>x = 0, y = 0\<rparr>, \<lparr>x = 1, y = 0\<rparr>],
       \<lparr>first = \<lparr>x = 0, y = 0\<rparr>, coordinate = \<lparr>x = 1, y = 0\<rparr>,
        x_increment = 1, y_increment = 1, dx = 2, dy = 2,
        total_n_coordinates = 2, n_coordinates_remaining = 0,
        balance = 3, do_minor_increment = True\<rparr>))"
  by code_simp

text \<open>
  C3. On the diagonal from (0,0) to (3,3) the traversal produces (0,0), (1,0), (2,1), (3,2)
  and not (0,0), (1,1), (2,2), (3,3): the first step advances \<open>x\<close> alone.
\<close>

theorem diagonal_sequence:
  "produced (bresenham_line_new \<lparr>x = 0, y = 0\<rparr> \<lparr>x = 3, y = 3\<rparr> :: 32 word bresenham_line) =
     Some [\<lparr>x = 0, y = 0\<rparr>, \<lparr>x = 1, y = 0\<rparr>, \<lparr>x = 2, y = 1\<rparr>, \<lparr>x = 3, y = 2\<rparr>]"
  by code_simp

text \<open>
  C2. \<^verbatim>\<open>begin\<close> restores \<^verbatim>\<open>coordinate\<close> and \<^verbatim>\<open>n_coordinates_remaining\<close> only; \<^verbatim>\<open>balance\<close> and
  \<^verbatim>\<open>do_minor_increment\<close> stay as the last traversal left them. From (0,0) to (2,1) the
  first traversal produces (0,0), (1,0), (2,1) and the second one (0,0), (1,1), (2,1).
\<close>

theorem second_traversal_differs:
  "traverse (bresenham_line_new \<lparr>x = 0, y = 0\<rparr> \<lparr>x = 2, y = 1\<rparr> :: 32 word bresenham_line) =
     Some (Inr ([\<lparr>x = 0, y = 0\<rparr>, \<lparr>x = 1, y = 0\<rparr>, \<lparr>x = 2, y = 1\<rparr>],
       \<lparr>first = \<lparr>x = 0, y = 0\<rparr>, coordinate = \<lparr>x = 2, y = 1\<rparr>,
        x_increment = 1, y_increment = 1, dx = 4, dy = 2,
        total_n_coordinates = 3, n_coordinates_remaining = 0,
        balance = 0, do_minor_increment = True\<rparr>)) \<and>
   traverse
       (\<lparr>first = \<lparr>x = 0, y = 0\<rparr>, coordinate = \<lparr>x = 2, y = 1\<rparr>,
        x_increment = 1, y_increment = 1, dx = 4, dy = 2,
        total_n_coordinates = 3, n_coordinates_remaining = 0,
        balance = 0, do_minor_increment = True\<rparr> :: 32 word bresenham_line) =
     Some (Inr ([\<lparr>x = 0, y = 0\<rparr>, \<lparr>x = 1, y = 1\<rparr>, \<lparr>x = 2, y = 1\<rparr>],
       \<lparr>first = \<lparr>x = 0, y = 0\<rparr>, coordinate = \<lparr>x = 2, y = 1\<rparr>,
        x_increment = 1, y_increment = 1, dx = 4, dy = 2,
        total_n_coordinates = 3, n_coordinates_remaining = 0,
        balance = 0, do_minor_increment = True\<rparr>))"
  by code_simp

section \<open>Swapped endpoints\<close>


text \<open>
  What the constructor leaves in the working type when twice the larger delta fits it, and
  the signed value of the balance after a step that does not overflow.
\<close>

lemma unat_nonneg_fits:
  assumes "0 \<le> k" and "k < 2 ^ (LENGTH('w) - 1)"
  shows "unat (word_of_int k :: 'w::len word) = nat k"
proof -
  have "(2 :: int) ^ (LENGTH('w) - 1) \<le> 2 ^ LENGTH('w)"
    by (rule power_increasing) simp_all
  with assms(2) have "k < 2 ^ LENGTH('w)"
    by (rule less_le_trans)
  from uint_nonneg_fits [OF assms(1) this] show ?thesis
    by (simp only: unat_eq_nat_uint)
qed

lemma working_range:
  fixes u v :: "'w::len word" and R :: int
  assumes R: "R = 2 ^ (LENGTH('w) - 1)"
  shows "0 < R"
    and "- R \<le> sint u"
    and "sint u < R"
    and "0 \<le> k \<Longrightarrow> k < R \<Longrightarrow> sint (word_of_int k :: 'w word) = k"
    and "0 \<le> k \<Longrightarrow> 2 * k < R \<Longrightarrow> sint (word_of_int k * 2 :: 'w word) = 2 * k"
    and "0 \<le> k \<Longrightarrow> k < R \<Longrightarrow> unat (word_of_int k :: 'w word) = nat k"
    and "- R \<le> sint u + sint v \<Longrightarrow> sint u + sint v < R \<Longrightarrow> sint (u + v) = sint u + sint v"
    and "- R \<le> sint u - sint v \<Longrightarrow> sint u - sint v < R \<Longrightarrow> sint (u - v) = sint u - sint v"
    and "1 < R \<Longrightarrow> sint (1 :: 'w word) = 1"
  unfolding R
  by (simp, rule sint_ge, rule sint_lt, rule sint_nonneg_fits, assumption+,
      rule sint_double_fits, assumption+, rule unat_nonneg_fits, assumption+,
      rule sint_add_fits, assumption+, rule sint_diff_fits, assumption+,
      rule sint_one_wide, assumption)

lemma new_in_range:
  fixes a b :: coord
  defines "D \<equiv> \<bar>x b - x a\<bar>" and "d \<equiv> \<bar>y b - y a\<bar>"
  defines "g \<equiv> bresenham_line_new a b :: 'w::len word bresenham_line"
  assumes fit: "2 * max D d < 2 ^ (LENGTH('w) - 1)"
  shows "sint (dx g) = 2 * D"
    and "sint (dy g) = 2 * d"
    and "is_y_major_axis g = (D < d)"
    and "sint (balance g) = (if D < d then 2 * D - d else 2 * d - D)"
    and "unat (n_coordinates_remaining g) = nat (max D d)"
proof -
  define R :: int where "R = 2 ^ (LENGTH('w) - 1)"
  note w = working_range [where 'w = 'w, OF R_def]
  have D0: "0 \<le> D" and d0: "0 \<le> d"
    by (simp_all add: D_def d_def)
  have fitR: "2 * max D d < R"
    using fit by (simp only: R_def)
  have r: "2 * D < R" "2 * d < R" "D < R" "d < R" "max D d < R"
    using fitR D0 d0 by linarith+
  have sD: "sint (word_of_int D :: 'w word) = D" and sd: "sint (word_of_int d :: 'w word) = d"
    using D0 d0 r(3,4) by (simp_all only: w(4))
  have dxg: "dx g = word_of_int D * 2" and dyg: "dy g = word_of_int d * 2"
    by (simp_all only: g_def new_fields D_def d_def)
  show s2D: "sint (dx g) = 2 * D"
    unfolding dxg using D0 r(1) by (rule w(5))
  show s2d: "sint (dy g) = 2 * d"
    unfolding dyg using d0 r(2) by (rule w(5))
  show "is_y_major_axis g = (D < d)"
    by (simp add: is_y_major_axis_def s2D s2d)
  have b: "balance g = (if D < d then dx g - word_of_int d else dy g - word_of_int D)"
    unfolding g_def new_counts new_fields D_def [symmetric] d_def [symmetric] sD sd
    by simp
  show "sint (balance g) = (if D < d then 2 * D - d else 2 * d - D)"
  proof (cases "D < d")
    case True
    have "- R \<le> 2 * D - d" "2 * D - d < R"
      using True D0 d0 r by linarith+
    then have "sint (dx g - word_of_int d) = sint (dx g) - sint (word_of_int d :: 'w word)"
      by (intro w(8)) (simp_all only: s2D sd)
    then show ?thesis
      using True b by (simp add: s2D sd)
  next
    case False
    have "- R \<le> 2 * d - D" "2 * d - D < R"
      using False D0 d0 r by linarith+
    then have "sint (dy g - word_of_int D) = sint (dy g) - sint (word_of_int D :: 'w word)"
      by (intro w(8)) (simp_all only: s2d sD)
    then show ?thesis
      using False b by (simp add: s2d sD)
  qed
  have "n_coordinates_remaining g = word_of_int (max D d)"
    unfolding g_def new_fields(8) new_counts D_def [symmetric] d_def [symmetric] sD sd
    by (simp add: max_def)
  moreover have "0 \<le> max D d"
    using D0 by linarith
  ultimately show "unat (n_coordinates_remaining g) = nat (max D d)"
    using r(5) by (simp only: w(6))
qed

lemma new_increments:
  fixes a b :: coord
  assumes "1 < (2 :: int) ^ (LENGTH('w) - 1)"
  shows "sint (x_increment (bresenham_line_new a b :: 'w::len word bresenham_line)) =
           (if x b < x a then - 1 else 1)"
    and "sint (y_increment (bresenham_line_new a b :: 'w::len word bresenham_line)) =
           (if y b < y a then - 1 else 1)"
  using sint_one_wide [OF assms] by (simp_all only: new_fields sint_increment(2) if_distrib [of sint])

lemma x_major_sint_balance:
  fixes g :: "'w::len word bresenham_line"
  assumes xm: "\<not> is_y_major_axis g"
    and sdx: "sint (dx g) = 2 * D" and sdy: "sint (dy g) = 2 * d"
    and D0: "0 \<le> D" and d0: "0 \<le> d"
    and lo: "do_minor_increment g \<longrightarrow> - (2 ^ (LENGTH('w) - 1)) \<le> sint (balance g) - 2 * D"
    and hi: "sint (balance g) - (if do_minor_increment g then 2 * D else 0) + 2 * d
               < 2 ^ (LENGTH('w) - 1)"
  shows "sint (balance (next_step g)) =
           sint (balance g) - (if do_minor_increment g then 2 * D else 0) + 2 * d"
proof -
  define R :: int where "R = 2 ^ (LENGTH('w) - 1)"
  note w = working_range [where 'w = 'w, OF R_def]
  define B where "B = sint (balance g)"
  have BR: "- R \<le> B" "B < R"
    unfolding B_def by (rule w(2), rule w(3))
  show ?thesis
  proof (cases "do_minor_increment g")
    case True
    have lo': "- R \<le> B - 2 * D" and hi': "B - 2 * D + 2 * d < R"
      using lo hi True by (simp_all only: B_def R_def if_True simp_thms)
    have "B - 2 * D < R"
      using BR D0 by linarith
    with lo' have "sint (balance g - dx g) = sint (balance g) - sint (dx g)"
      by (intro w(8)) (simp_all only: sdx B_def)
    then have u: "sint (balance g - dx g) = B - 2 * D"
      by (simp only: sdx B_def)
    have "- R \<le> B - 2 * D + 2 * d"
      using lo' d0 by linarith
    with hi' have "sint (balance g - dx g + dy g) = sint (balance g - dx g) + sint (dy g)"
      by (intro w(7)) (simp_all only: u sdy)
    then show ?thesis
      using True by (simp add: next_step_x_major(3) [OF xm] u sdy B_def)
  next
    case False
    have hi': "B + 2 * d < R"
      using hi False by (simp only: B_def R_def if_False diff_zero)
    have "- R \<le> B + 2 * d"
      using BR d0 by linarith
    with hi' have "sint (balance g + dy g) = sint (balance g) + sint (dy g)"
      by (intro w(7)) (simp_all only: sdy B_def)
    then show ?thesis
      using False by (simp add: next_step_x_major(3) [OF xm] sdy B_def)
  qed
qed

text \<open>
  Where twice the minor delta is below the major delta, the initial balance is negative and
  the balance stays in the band \<open>2d - 2D \<le> balance < 2d\<close>, which lies inside the working type
  when \<open>2D\<close> does: after \<open>k\<close> steps the minor axis has moved \<open>m\<close> times, with
  \<open>2Dm \<le> 2dk + D < 2D(m + 1)\<close>.
\<close>

lemma x_major_balance:
  fixes a b :: coord
  defines "D \<equiv> \<bar>x b - x a\<bar>" and "d \<equiv> \<bar>y b - y a\<bar>"
  defines "g \<equiv> bresenham_line_new a b :: 'w::len word bresenham_line"
  assumes small: "2 * d < D" and fit: "2 * D < 2 ^ (LENGTH('w) - 1)"
  shows "\<exists>m. y (trace g k) = y a + m * sint (y_increment g) \<and>
             sint (balance ((next_step ^^ k) g)) = 2 * d * (int k + 1) - D - 2 * D * m \<and>
             2 * d - 2 * D \<le> sint (balance ((next_step ^^ k) g)) \<and>
             sint (balance ((next_step ^^ k) g)) < 2 * d \<and>
             do_minor_increment ((next_step ^^ k) g) = (0 \<le> sint (balance ((next_step ^^ k) g)))"
proof -
  have d0: "0 \<le> d" by (simp add: d_def)
  have D0: "0 \<le> D" by (simp add: D_def)
  have mx: "max D d = D" using small d0 by linarith
  have "2 * max D d < 2 ^ (LENGTH('w) - 1)"
    using fit by (simp only: mx)
  then have fit': "2 * max \<bar>x b - x a\<bar> \<bar>y b - y a\<bar> < 2 ^ (LENGTH('w) - 1)"
    by (simp only: D_def d_def)
  note n = new_in_range [where 'w = 'w, OF fit', folded D_def d_def g_def]
  have nlt: "\<not> D < d" using small d0 by linarith
  have sdx: "sint (dx g) = 2 * D" and sdy: "sint (dy g) = 2 * d"
    by (rule n(1), rule n(2))
  have xm: "\<not> is_y_major_axis g"
    using nlt by (simp add: n(3))
  have b0: "sint (balance g) = 2 * d - D"
    using nlt by (simp add: n(4))
  show ?thesis
  proof (induction k)
    case 0
    have "y (trace g 0) = y a + 0 * sint (y_increment g)"
      by (simp add: g_def new_fields)
    moreover have "sint (balance ((next_step ^^ 0) g)) = 2 * d * (int 0 + 1) - D - 2 * D * 0"
      using b0 by simp
    moreover have "2 * d - 2 * D \<le> sint (balance ((next_step ^^ 0) g))"
      using b0 D0 by simp
    moreover have "sint (balance ((next_step ^^ 0) g)) < 2 * d"
      using b0 small d0 by simp
    moreover have "do_minor_increment ((next_step ^^ 0) g) =
                 (0 \<le> sint (balance ((next_step ^^ 0) g)))"
      using b0 small by (simp add: g_def new_fields)
    ultimately show ?case by blast
  next
    case (Suc k)
    let ?h = "(next_step ^^ k) g"
    from Suc obtain m where
      ym: "y (trace g k) = y a + m * sint (y_increment g)" and
      bm: "sint (balance ?h) = 2 * d * (int k + 1) - D - 2 * D * m" and
      lo: "2 * d - 2 * D \<le> sint (balance ?h)" and
      hi: "sint (balance ?h) < 2 * d" and
      fl: "do_minor_increment ?h = (0 \<le> sint (balance ?h))"
      by blast
    define B where "B = sint (balance ?h)"
    have xmh: "\<not> is_y_major_axis ?h"
      using xm by simp
    have sdxh: "sint (dx ?h) = 2 * D" and sdyh: "sint (dy ?h) = 2 * d"
      using sdx sdy by simp_all
    have r1: "do_minor_increment ?h \<longrightarrow> - (2 ^ (LENGTH('w) - 1)) \<le> sint (balance ?h) - 2 * D"
    proof
      assume "do_minor_increment ?h"
      with fl have "0 \<le> B" by (simp only: B_def)
      then have "- (2 * D) \<le> B - 2 * D" by simp
      moreover have "- (2 ^ (LENGTH('w) - 1)) \<le> - (2 * D)"
        using fit by linarith
      ultimately show "- (2 ^ (LENGTH('w) - 1)) \<le> sint (balance ?h) - 2 * D"
        unfolding B_def by (rule order_trans [rotated])
    qed
    have "B - (if do_minor_increment ?h then 2 * D else 0) + 2 * d < 2 * D"
      using hi small D0 d0 by (auto simp: B_def)
    then have r2: "sint (balance ?h) - (if do_minor_increment ?h then 2 * D else 0) + 2 * d
                     < 2 ^ (LENGTH('w) - 1)"
      unfolding B_def using fit by (rule less_trans)
    have nb: "sint (balance ((next_step ^^ Suc k) g)) =
            B - (if 0 \<le> B then 2 * D else 0) + 2 * d"
      using x_major_sint_balance [OF xmh sdxh sdyh D0 d0 r1 r2] fl
      by (simp add: B_def)
    have ny: "y (trace g (Suc k)) =
            y (trace g k) + (if 0 \<le> B then sint (y_increment g) else 0)"
      using next_step_x_major(2) [OF xmh] fl by (simp add: trace_def B_def)
    have nf: "do_minor_increment ((next_step ^^ Suc k) g) =
                (0 \<le> sint (balance ((next_step ^^ Suc k) g)))"
      by simp
    have bm': "B = 2 * d * (int k + 1) - D - 2 * D * m" and lo': "2 * d - 2 * D \<le> B"
      and hi': "B < 2 * d"
      using bm lo hi by (simp_all only: B_def)
    show ?case
    proof (cases "0 \<le> B")
      case True
      have "y (trace g (Suc k)) = y a + (m + 1) * sint (y_increment g)"
        using ny ym True by (simp add: algebra_simps)
      moreover have "sint (balance ((next_step ^^ Suc k) g)) =
          2 * d * (int (Suc k) + 1) - D - 2 * D * (m + 1)"
        using nb bm' True by (simp add: algebra_simps)
      moreover have "2 * d - 2 * D \<le> sint (balance ((next_step ^^ Suc k) g))"
        using nb True by simp
      moreover have "sint (balance ((next_step ^^ Suc k) g)) < 2 * d"
        using nb True hi' small d0 by simp
      ultimately show ?thesis using nf by blast
    next
      case False
      have "y (trace g (Suc k)) = y a + m * sint (y_increment g)"
        using ny ym False by simp
      moreover have "sint (balance ((next_step ^^ Suc k) g)) =
          2 * d * (int (Suc k) + 1) - D - 2 * D * m"
        using nb bm' False by (simp add: algebra_simps)
      moreover have "2 * d - 2 * D \<le> sint (balance ((next_step ^^ Suc k) g))"
        using nb False lo' d0 by simp
      moreover have "sint (balance ((next_step ^^ Suc k) g)) < 2 * d"
        using nb False by simp
      ultimately show ?thesis using nf by blast
    qed
  qed
qed

lemma x_major_minor_count:
  fixes a b :: coord
  defines "D \<equiv> \<bar>x b - x a\<bar>" and "d \<equiv> \<bar>y b - y a\<bar>"
  defines "g \<equiv> bresenham_line_new a b :: 'w::len word bresenham_line"
  assumes small: "2 * d < D" and fit: "2 * D < 2 ^ (LENGTH('w) - 1)"
  shows "\<exists>m. y (trace g k) = y a + m * sint (y_increment g) \<and>
             2 * D * m \<le> 2 * d * int k + D \<and> 2 * d * int k + D < 2 * D * (m + 1)"
proof -
  from x_major_balance [where 'w = 'w and a = a and b = b and k = k, folded D_def d_def g_def,
    OF small fit]
  obtain m where
    ym: "y (trace g k) = y a + m * sint (y_increment g)" and
    bm: "sint (balance ((next_step ^^ k) g)) = 2 * d * (int k + 1) - D - 2 * D * m" and
    lo: "2 * d - 2 * D \<le> sint (balance ((next_step ^^ k) g))" and
    hi: "sint (balance ((next_step ^^ k) g)) < 2 * d"
    by blast
  from bm lo have "2 * D * m \<le> 2 * d * int k + D"
    by (simp add: algebra_simps)
  moreover from bm hi have "2 * d * int k + D < 2 * D * (m + 1)"
    by (simp add: algebra_simps)
  ultimately show ?thesis using ym by blast
qed

lemma x_major_reverse_point:
  fixes a b :: coord
  defines "D \<equiv> \<bar>x b - x a\<bar>" and "d \<equiv> \<bar>y b - y a\<bar>"
  assumes small: "2 * d < D" and fit: "2 * D < 2 ^ (LENGTH('w) - 1)"
    and tf: "tie_free D d" and k: "int k \<le> D"
  shows "trace (bresenham_line_new b a :: 'w::len word bresenham_line) (nat D - k) =
         trace (bresenham_line_new a b :: 'w word bresenham_line) k"
proof -
  let ?f = "bresenham_line_new a b :: 'w word bresenham_line"
  let ?r = "bresenham_line_new b a :: 'w word bresenham_line"
  let ?j = "nat D - k"
  have d0: "0 \<le> d" by (simp add: d_def)
  have Dpos: "0 < D" using small d0 by simp
  have j: "int ?j = D - int k" using k by simp
  have D': "\<bar>x a - x b\<bar> = D" and d': "\<bar>y a - y b\<bar> = d"
    by (simp_all add: D_def d_def abs_minus_commute)
  have small': "2 * \<bar>y a - y b\<bar> < \<bar>x a - x b\<bar>"
    and fit': "2 * \<bar>x a - x b\<bar> < 2 ^ (LENGTH('w) - 1)"
    using small fit by (simp_all only: D' d')
  from x_major_minor_count [where 'w = 'w and a = a and b = b and k = k,
    folded D_def d_def, OF small fit]
  obtain m where
    ym: "y (trace ?f k) = y a + m * sint (y_increment ?f)" and
    lo: "2 * D * m \<le> 2 * d * int k + D" and
    hi: "2 * d * int k + D < 2 * D * (m + 1)"
    by blast
  from x_major_minor_count [where 'w = 'w and a = b and b = a and k = ?j, OF small' fit']
  obtain n where
    yn: "y (trace ?r ?j) = y b + n * sint (y_increment ?r)" and
    lo': "2 * D * n \<le> 2 * d * int ?j + D" and
    hi': "2 * d * int ?j + D < 2 * D * (n + 1)"
    unfolding D' d' by blast
  from tf k have "\<not> 2 * D dvd 2 * d * int k + D"
    by (simp add: tie_free_def)
  then have "2 * D * m \<noteq> 2 * d * int k + D"
    by (metis dvd_triv_left)
  with lo have lo_strict: "2 * D * m < 2 * d * int k + D"
    by simp
  have "(2 * D) * (m + n) < (2 * D) * (d + 1)"
    using lo_strict lo' by (simp add: j algebra_simps)
  then have up: "m + n < d + 1"
    using Dpos by (simp only: mult_less_cancel_left_pos [of "2 * D"])
  have "(2 * D) * (d + 1) < (2 * D) * (m + n + 2)"
    using hi hi' by (simp add: j algebra_simps)
  then have low: "d + 1 < m + n + 2"
    using Dpos by (simp only: mult_less_cancel_left_pos [of "2 * D"])
  from up low have sum: "m + n = d" by simp
  have "0 \<le> 2 * d * int k"
    using d0 by simp
  with hi Dpos have "(2 * D) * 0 < (2 * D) * (m + 1)"
    by simp
  then have m0: "0 \<le> m"
    using Dpos by (simp only: mult_less_cancel_left_pos [of "2 * D"])
  have "0 \<le> 2 * d * int ?j"
    using d0 by simp
  with hi' Dpos have "(2 * D) * 0 < (2 * D) * (n + 1)"
    by simp
  then have n0: "0 \<le> n"
    using Dpos by (simp only: mult_less_cancel_left_pos [of "2 * D"])
  have mx: "max D d = D"
    using small d0 by linarith
  have "2 * max D d < 2 ^ (LENGTH('w) - 1)"
    using fit by (simp only: mx)
  then have fitf: "2 * max \<bar>x b - x a\<bar> \<bar>y b - y a\<bar> < 2 ^ (LENGTH('w) - 1)"
    and fitr: "2 * max \<bar>x a - x b\<bar> \<bar>y a - y b\<bar> < 2 ^ (LENGTH('w) - 1)"
    by (simp_all only: D_def d_def abs_minus_commute [of "x a"] abs_minus_commute [of "y a"])
  have nlt: "\<not> D < d"
    using small d0 by linarith
  have "is_y_major_axis ?f = (D < d)"
    using new_in_range(3) [where 'w = 'w, OF fitf] by (simp only: D_def d_def)
  moreover have "is_y_major_axis ?r = (D < d)"
    using new_in_range(3) [where 'w = 'w, OF fitr] by (simp only: D' d')
  ultimately have xm: "\<not> is_y_major_axis ?f" "\<not> is_y_major_axis ?r"
    using nlt by simp_all
  have "(1 :: int) < 2 * D"
    using Dpos by simp
  then have wide: "1 < (2 :: int) ^ (LENGTH('w) - 1)"
    using fit by (rule less_trans)
  have xf: "x (trace ?f k) = x a + int k * (if x b < x a then - 1 else 1)"
    using trace_x_major_x [OF xm(1), of k] by (simp only: new_increments [OF wide] new_fields(2))
  have xr: "x (trace ?r ?j) = x b + (D - int k) * (if x a < x b then - 1 else 1)"
    using trace_x_major_x [OF xm(2), of ?j] by (simp only: new_increments [OF wide] new_fields(2) j)
  have yf: "y (trace ?f k) = y a + m * (if y b < y a then - 1 else 1)"
    using ym by (simp only: new_increments [OF wide])
  have yr: "y (trace ?r ?j) = y b + n * (if y a < y b then - 1 else 1)"
    using yn by (simp only: new_increments [OF wide])
  have "x (trace ?r ?j) = x (trace ?f k)"
  proof (cases "x b < x a")
    case True
    then show ?thesis using xf xr by (simp add: D_def algebra_simps)
  next
    case False
    with Dpos have "x a < x b" by (simp add: D_def)
    then show ?thesis using xf xr by (simp add: D_def algebra_simps)
  qed
  moreover have "y (trace ?r ?j) = y (trace ?f k)"
  proof (cases "y b < y a")
    case True
    then show ?thesis using yf yr sum by (simp add: d_def algebra_simps)
  next
    case False
    show ?thesis
    proof (cases "y a < y b")
      case True
      then show ?thesis using yf yr sum by (simp add: d_def algebra_simps)
    next
      case False
      with \<open>\<not> y b < y a\<close> have "y a = y b" by simp
      then have "d = 0" by (simp add: d_def)
      with sum m0 n0 have "m = 0" "n = 0" by simp_all
      then show ?thesis using yf yr \<open>y a = y b\<close> by simp
    qed
  qed
  ultimately show ?thesis by simp
qed

lemma flip_flip [simp]: "flip (flip p) = p"
  by (simp add: flip_def)

lemma flip_sel [simp]: "x (flip p) = y p" "y (flip p) = x p"
  by (simp_all add: flip_def)

lemma next_step_flip:
  assumes "dx g \<noteq> dy g"
  shows "next_step (flip_line g) = flip_line (next_step g)"
proof -
  from assms have "sint (dx g) \<noteq> sint (dy g)"
    by (auto dest: signed_word_eqI)
  then show ?thesis
    by (auto simp: next_step_def flip_line_def flip_def is_y_major_axis_def Let_def)
qed

lemma new_flip:
  assumes "(word_of_int \<bar>x b - x a\<bar> :: 'w::len word) \<noteq> word_of_int \<bar>y b - y a\<bar>"
  shows "bresenham_line_new (flip a) (flip b) =
           flip_line (bresenham_line_new a b :: 'w word bresenham_line)"
proof -
  from assms
  have "sint (word_of_int \<bar>x b - x a\<bar> :: 'w word) \<noteq> sint (word_of_int \<bar>y b - y a\<bar> :: 'w word)"
    by (auto dest: signed_word_eqI)
  then show ?thesis
    by (auto simp: bresenham_line_new_def member_init_def flip_line_def flip_def
          is_y_major_axis_def Let_def)
qed

lemma trace_flip:
  "dx g \<noteq> dy g \<Longrightarrow> trace (flip_line g) k = flip (trace g k)"
proof (induction k arbitrary: g)
  case 0
  show ?case by (simp add: flip_line_def)
next
  case (Suc k)
  then show ?case by (simp add: trace_Suc next_step_flip)
qed

lemma produced_new:
  fixes a b :: coord
  defines "g \<equiv> bresenham_line_new a b :: 'w::len word bresenham_line"
  shows "produced g = Some (map (trace g) [0..<Suc (unat (n_coordinates_remaining g))])"
  unfolding g_def by (simp add: produced_def traverse_new)

lemma off_diagonal_words:
  fixes a b :: coord
  assumes ne: "\<bar>x b - x a\<bar> \<noteq> \<bar>y b - y a\<bar>"
    and fit: "2 * max \<bar>x b - x a\<bar> \<bar>y b - y a\<bar> < 2 ^ (LENGTH('w) - 1)"
  shows "(word_of_int \<bar>x b - x a\<bar> :: 'w::len word) \<noteq> word_of_int \<bar>y b - y a\<bar>"
    and "dx (bresenham_line_new a b :: 'w word bresenham_line) \<noteq>
         dy (bresenham_line_new a b :: 'w word bresenham_line)"
proof -
  define D where "D = \<bar>x b - x a\<bar>"
  define d where "d = \<bar>y b - y a\<bar>"
  define R :: int where "R = 2 ^ (LENGTH('w) - 1)"
  note w = working_range [where 'w = 'w, OF R_def]
  have D0: "0 \<le> D" and d0: "0 \<le> d"
    by (simp_all add: D_def d_def)
  have "2 * max D d < R"
    using fit by (simp only: D_def d_def R_def)
  then have r: "D < R" "d < R"
    using D0 d0 by linarith+
  have "sint (word_of_int D :: 'w word) = D" "sint (word_of_int d :: 'w word) = d"
    using D0 d0 r by (simp_all only: w(4))
  with ne show "(word_of_int \<bar>x b - x a\<bar> :: 'w word) \<noteq> word_of_int \<bar>y b - y a\<bar>"
    unfolding D_def [symmetric] d_def [symmetric] by metis
  from new_in_range(1,2) [where 'w = 'w, OF fit] ne
  show "dx (bresenham_line_new a b :: 'w word bresenham_line) \<noteq>
        dy (bresenham_line_new a b :: 'w word bresenham_line)"
    by (metis mult_cancel_left zero_neq_numeral)
qed

lemma produced_flip:
  fixes a b :: coord
  assumes ne: "\<bar>x b - x a\<bar> \<noteq> \<bar>y b - y a\<bar>"
    and fit: "2 * max \<bar>x b - x a\<bar> \<bar>y b - y a\<bar> < 2 ^ (LENGTH('w) - 1)"
  shows "produced (bresenham_line_new (flip a) (flip b) :: 'w::len word bresenham_line) =
           map_option (map flip) (produced (bresenham_line_new a b :: 'w word bresenham_line))"
proof -
  let ?g = "bresenham_line_new a b :: 'w word bresenham_line"
  note o = off_diagonal_words [where 'w = 'w, OF ne fit]
  have f: "bresenham_line_new (flip a) (flip b) = flip_line ?g"
    by (rule new_flip [OF o(1)])
  have "trace (flip_line ?g) = flip \<circ> trace ?g"
    by (simp add: trace_flip [OF o(2)] fun_eq_iff)
  moreover have "n_coordinates_remaining (flip_line ?g) = n_coordinates_remaining ?g"
    by (simp add: flip_line_def)
  moreover have "produced (bresenham_line_new (flip a) (flip b) :: 'w word bresenham_line) =
      Some (map (trace (flip_line ?g)) [0..<Suc (unat (n_coordinates_remaining (flip_line ?g)))])"
    using produced_new [where 'w = 'w, of "flip a" "flip b"] by (simp only: f)
  ultimately show ?thesis
    by (simp add: produced_new del: upt_Suc)
qed

lemma rev_map_upt: "rev (map f [0..<Suc n]) = map (\<lambda>i. f (n - i)) [0..<Suc n]"
proof (rule nth_equalityI)
  show "length (rev (map f [0..<Suc n])) = length (map (\<lambda>i. f (n - i)) [0..<Suc n])"
    by simp
next
  fix i assume "i < length (rev (map f [0..<Suc n]))"
  then have i: "i < Suc n" by simp
  then have "rev (map f [0..<Suc n]) ! i = map f [0..<Suc n] ! (n - i)"
    by (simp add: rev_nth del: upt_Suc)
  also have "\<dots> = f (n - i)"
    using i by (simp del: upt_Suc add: nth_map_upt)
  also have "\<dots> = map (\<lambda>i. f (n - i)) [0..<Suc n] ! i"
    using i by (simp del: upt_Suc add: nth_map_upt)
  finally show "rev (map f [0..<Suc n]) ! i = map (\<lambda>i. f (n - i)) [0..<Suc n] ! i" .
qed

lemma x_major_reverse:
  fixes a b :: coord
  assumes small: "2 * \<bar>y b - y a\<bar> < \<bar>x b - x a\<bar>"
    and fit: "2 * \<bar>x b - x a\<bar> < 2 ^ (LENGTH('w) - 1)"
    and tf: "tie_free \<bar>x b - x a\<bar> \<bar>y b - y a\<bar>"
  shows "produced (bresenham_line_new b a :: 'w::len word bresenham_line) =
           map_option rev (produced (bresenham_line_new a b :: 'w word bresenham_line))"
proof -
  let ?f = "bresenham_line_new a b :: 'w word bresenham_line"
  let ?r = "bresenham_line_new b a :: 'w word bresenham_line"
  define D where "D = \<bar>x b - x a\<bar>"
  define d where "d = \<bar>y b - y a\<bar>"
  define n where "n = nat D"
  have d0: "0 \<le> d" by (simp add: d_def)
  have sm: "2 * d < D"
    using small by (simp only: D_def d_def)
  have mx: "max D d = D"
    using sm d0 by linarith
  have n: "int n = D"
    using sm d0 by (simp add: n_def)
  have "2 * D < 2 ^ (LENGTH('w) - 1)"
    using fit by (simp only: D_def)
  then have "2 * max D d < 2 ^ (LENGTH('w) - 1)"
    by (simp only: mx)
  then have fitf: "2 * max \<bar>x b - x a\<bar> \<bar>y b - y a\<bar> < 2 ^ (LENGTH('w) - 1)"
    and fitr: "2 * max \<bar>x a - x b\<bar> \<bar>y a - y b\<bar> < 2 ^ (LENGTH('w) - 1)"
    by (simp_all only: D_def d_def abs_minus_commute [of "x a"] abs_minus_commute [of "y a"])
  have lf: "unat (n_coordinates_remaining ?f) = n"
    using new_in_range(5) [where 'w = 'w, OF fitf] by (simp only: n_def mx D_def [symmetric] d_def [symmetric])
  have lr: "unat (n_coordinates_remaining ?r) = n"
    using new_in_range(5) [where 'w = 'w, OF fitr]
    by (simp only: abs_minus_commute [of "x a"] abs_minus_commute [of "y a"])
       (simp only: n_def mx D_def [symmetric] d_def [symmetric])
  have "map (trace ?r) [0..<Suc n] = map (\<lambda>i. trace ?f (n - i)) [0..<Suc n]"
  proof (rule map_cong [OF refl])
    fix i assume "i \<in> set [0..<Suc n]"
    then have i: "i \<le> n" by auto
    then have "int (n - i) \<le> \<bar>x b - x a\<bar>"
      using n by (simp add: D_def)
    from x_major_reverse_point [where 'w = 'w, OF small fit tf this] i
    show "trace ?r i = trace ?f (n - i)"
      by (simp add: n_def [symmetric] D_def [symmetric])
  qed
  then show ?thesis
    by (simp only: produced_new lf lr option.map rev_map_upt)
qed



section \<open>Which lines end on \<open>last\<close>\<close>

text \<open>
  The first traversal of a line as constructed, where three times the larger delta fits
  the working type. On a diagonal the balance is \<open>3 * D\<close> after every step: the first step
  moves \<open>x\<close> alone, every later step moves both axes, and the traversal of a diagonal with
  \<open>a \<noteq> b\<close> ends one minor step short of \<open>b\<close>.
\<close>

lemma diagonal_state:
  fixes a b :: coord
  defines "D \<equiv> \<bar>x b - x a\<bar>"
  defines "g \<equiv> bresenham_line_new a b :: 'w::len word bresenham_line"
  assumes diag: "\<bar>x b - x a\<bar> = \<bar>y b - y a\<bar>" and fit: "3 * D < 2 ^ (LENGTH('w) - 1)"
  shows "x (trace g (Suc k)) = x a + (int k + 1) * sint (x_increment g) \<and>
         y (trace g (Suc k)) = y a + int k * sint (y_increment g) \<and>
         sint (balance ((next_step ^^ Suc k) g)) = 3 * D"
proof -
  have D0: "0 \<le> D" by (simp add: D_def)
  have d: "\<bar>y b - y a\<bar> = D" using diag by (simp only: D_def)
  have "2 * max D D < 2 ^ (LENGTH('w) - 1)"
    using fit D0 by simp
  then have fit2: "2 * max \<bar>x b - x a\<bar> \<bar>y b - y a\<bar> < 2 ^ (LENGTH('w) - 1)"
    by (simp only: d D_def [symmetric])
  note n = new_in_range [where 'w = 'w, OF fit2, folded g_def, unfolded d, folded D_def]
  have sdx: "sint (dx g) = 2 * D" and sdy: "sint (dy g) = 2 * D"
    by (rule n(1), rule n(2))
  have xm: "\<not> is_y_major_axis g"
    by (simp add: n(3))
  have b0: "sint (balance g) = D"
    by (simp add: n(4))
  have p0: "\<not> do_minor_increment g"
    by (simp add: g_def new_fields)
  have c0: "coordinate g = a"
    by (simp add: g_def new_fields)
  have step: "sint (balance (next_step h)) = 3 * D"
    if h: "\<not> is_y_major_axis h" "sint (dx h) = 2 * D" "sint (dy h) = 2 * D"
      and hb: "if do_minor_increment h then sint (balance h) = 3 * D else sint (balance h) = D"
    for h :: "'w word bresenham_line"
  proof -
    have r1: "do_minor_increment h \<longrightarrow> - (2 ^ (LENGTH('w) - 1)) \<le> sint (balance h) - 2 * D"
    proof
      assume "do_minor_increment h"
      with hb have "sint (balance h) - 2 * D = D" by simp
      moreover have "- (2 ^ (LENGTH('w) - 1)) \<le> D"
        using fit D0 by linarith
      ultimately show "- (2 ^ (LENGTH('w) - 1)) \<le> sint (balance h) - 2 * D"
        by (simp only:)
    qed
    have e: "sint (balance h) - (if do_minor_increment h then 2 * D else 0) + 2 * D = 3 * D"
      using hb by (simp split: if_splits)
    have r2: "sint (balance h) - (if do_minor_increment h then 2 * D else 0) + 2 * D
                < 2 ^ (LENGTH('w) - 1)"
      using fit by (simp only: e)
    from x_major_sint_balance [OF h(1) h(2) h(3) D0 D0 r1 r2] e show ?thesis
      by (simp only:)
  qed
  show ?thesis
  proof (induction k)
    case 0
    have "sint (balance (next_step g)) = 3 * D"
      by (rule step [OF xm sdx sdy]) (simp add: p0 b0)
    then show ?case
      using next_step_x_major(1,2) [OF xm] p0 by (simp add: trace_def c0)
  next
    case (Suc k)
    let ?h = "(next_step ^^ Suc k) g"
    have xmh: "\<not> is_y_major_axis ?h"
      using xm by simp
    have sh: "sint (dx ?h) = 2 * D" "sint (dy ?h) = 2 * D"
      using sdx sdy by (simp_all only: funpow_next_unchanged)
    from Suc have bal: "sint (balance ?h) = 3 * D"
      by blast
    have fl: "do_minor_increment ?h"
      using bal D0 by (simp only: funpow.simps o_apply next_step_pending)
    have tx: "x (coordinate ?h) = x a + (int k + 1) * sint (x_increment g)"
      and ty: "y (coordinate ?h) = y a + int k * sint (y_increment g)"
      using Suc by (simp_all add: trace_def)
    have "if do_minor_increment ?h then sint (balance ?h) = 3 * D else sint (balance ?h) = D"
      using fl bal by (simp only: if_True)
    then have "sint (balance (next_step ?h)) = 3 * D"
      by (rule step [OF xmh sh])
    moreover have "x (coordinate (next_step ?h)) = x a + (int (Suc k) + 1) * sint (x_increment g)"
      using next_step_x_major(1) [OF xmh] tx by (simp add: algebra_simps)
    moreover have "y (coordinate (next_step ?h)) = y a + int (Suc k) * sint (y_increment g)"
      using next_step_x_major(2) [OF xmh] ty fl by (simp add: algebra_simps)
    ultimately show ?case by (simp add: trace_def)
  qed
qed

lemma diagonal_ends_short:
  fixes a b :: coord
  assumes diag: "\<bar>x b - x a\<bar> = \<bar>y b - y a\<bar>" and ne: "a \<noteq> b"
    and fit: "3 * \<bar>x b - x a\<bar> < 2 ^ (LENGTH('w) - 1)"
  shows "\<exists>ps. produced (bresenham_line_new a b :: 'w::len word bresenham_line) = Some ps \<and>
              last ps = \<lparr>x = x b, y = y b - (if y b < y a then - 1 else 1)\<rparr>"
proof -
  let ?g = "bresenham_line_new a b :: 'w word bresenham_line"
  define D where "D = \<bar>x b - x a\<bar>"
  define n where "n = nat D"
  have "x a \<noteq> x b"
  proof
    assume "x a = x b"
    with diag have "y a = y b" by simp
    with \<open>x a = x b\<close> ne show False by simp
  qed
  then have Dpos: "0 < D" by (simp add: D_def)
  then have "0 < n" by (simp add: n_def)
  then obtain k where k: "n = Suc k" by (cases n) simp_all
  have n: "int n = D" using Dpos by (simp add: n_def)
  have fitD: "3 * D < 2 ^ (LENGTH('w) - 1)"
    using fit by (simp only: D_def)
  have "(1 :: int) < 3 * D" using Dpos by simp
  then have wide: "1 < (2 :: int) ^ (LENGTH('w) - 1)"
    using fitD by (rule less_trans)
  have "2 * max D D < 2 ^ (LENGTH('w) - 1)"
    using fitD Dpos by simp
  then have fit2: "2 * max \<bar>x b - x a\<bar> \<bar>y b - y a\<bar> < 2 ^ (LENGTH('w) - 1)"
    by (simp only: diag [symmetric] D_def)
  have "unat (n_coordinates_remaining ?g) = n"
    using new_in_range(5) [where 'w = 'w, OF fit2]
    by (simp only: diag [symmetric] D_def [symmetric] max.idem n_def)
  then have ps: "produced ?g = Some (map (trace ?g) [0..<Suc n])"
    by (simp only: produced_new)
  have "last (map (trace ?g) [0..<Suc n]) = trace ?g n"
    by simp
  moreover from diagonal_state [where 'w = 'w, OF diag fit, of k]
  have "x (trace ?g n) = x a + int n * (if x b < x a then - 1 else 1)"
       "y (trace ?g n) = y a + (int n - 1) * (if y b < y a then - 1 else 1)"
    by (simp_all add: k new_increments [OF wide])
  then have "trace ?g n = \<lparr>x = x b, y = y b - (if y b < y a then - 1 else 1)\<rparr>"
    using diag by (simp add: n D_def algebra_simps) (auto simp: abs_if split: if_splits)
  ultimately show ?thesis using ps by simp
qed

text \<open>
  Off the diagonal the minor axis catches up: as long as the balance has not come below
  \<open>2d\<close> every step but the first has moved the minor axis, and once it has, the balance stays
  in the band. Either way the last coordinate produced is \<open>b\<close>.
\<close>

lemma x_major_catch_up:
  fixes a b :: coord
  defines "D \<equiv> \<bar>x b - x a\<bar>" and "d \<equiv> \<bar>y b - y a\<bar>"
  defines "g \<equiv> bresenham_line_new a b :: 'w::len word bresenham_line"
  assumes less: "d < D" and fit: "3 * D < 2 ^ (LENGTH('w) - 1)"
  shows "\<exists>m. y (trace g (Suc k)) = y a + m * sint (y_increment g) \<and>
             sint (balance ((next_step ^^ Suc k) g)) = 2 * d * (int k + 2) - D - 2 * D * m \<and>
             2 * d - 2 * D \<le> sint (balance ((next_step ^^ Suc k) g)) \<and>
             sint (balance ((next_step ^^ Suc k) g)) < 3 * D \<and>
             (sint (balance ((next_step ^^ Suc k) g)) < 2 * d \<or> m = int k)"
proof -
  have d0: "0 \<le> d" by (simp add: d_def)
  have D0: "0 \<le> D" by (simp add: D_def)
  have Dpos: "0 < D" using less d0 by linarith
  have mx: "max D d = D" using less by linarith
  have "2 * D < 2 ^ (LENGTH('w) - 1)"
    using fit D0 by linarith
  then have "2 * max D d < 2 ^ (LENGTH('w) - 1)"
    by (simp only: mx)
  then have fit2: "2 * max \<bar>x b - x a\<bar> \<bar>y b - y a\<bar> < 2 ^ (LENGTH('w) - 1)"
    by (simp only: D_def d_def)
  note n = new_in_range [where 'w = 'w, OF fit2, folded D_def d_def g_def]
  have nlt: "\<not> D < d" using less by linarith
  have sdx: "sint (dx g) = 2 * D" and sdy: "sint (dy g) = 2 * d"
    by (rule n(1), rule n(2))
  have xm: "\<not> is_y_major_axis g"
    using nlt by (simp add: n(3))
  have b0: "sint (balance g) = 2 * d - D"
    using nlt by (simp add: n(4))
  have p0: "\<not> do_minor_increment g"
    by (simp add: g_def new_fields)
  have c0: "coordinate g = a"
    by (simp add: g_def new_fields)
  show ?thesis
  proof (induction k)
    case 0
    have r1: "do_minor_increment g \<longrightarrow> - (2 ^ (LENGTH('w) - 1)) \<le> sint (balance g) - 2 * D"
      using p0 by simp
    have "4 * d - D < 3 * D"
      using less by linarith
    then have "4 * d - D < 2 ^ (LENGTH('w) - 1)"
      using fit by (rule less_trans)
    then have r2: "sint (balance g) - (if do_minor_increment g then 2 * D else 0) + 2 * d
                     < 2 ^ (LENGTH('w) - 1)"
      using p0 b0 by simp
    have nb: "sint (balance (next_step g)) = 4 * d - D"
      using x_major_sint_balance [OF xm sdx sdy D0 d0 r1 r2] p0 b0 by simp
    have "y (trace g (Suc 0)) = y a + 0 * sint (y_increment g)"
      using next_step_x_major(2) [OF xm] p0 by (simp add: trace_def c0)
    moreover have "sint (balance ((next_step ^^ Suc 0) g)) = 2 * d * (int 0 + 2) - D - 2 * D * 0"
      using nb by simp
    moreover have "2 * d - 2 * D \<le> sint (balance ((next_step ^^ Suc 0) g))"
      using nb d0 D0 by simp
    moreover have "sint (balance ((next_step ^^ Suc 0) g)) < 3 * D"
      using nb less by simp
    ultimately show ?case by fastforce
  next
    case (Suc k)
    let ?h = "(next_step ^^ Suc k) g"
    from Suc obtain m where
      ym: "y (trace g (Suc k)) = y a + m * sint (y_increment g)" and
      bm: "sint (balance ?h) = 2 * d * (int k + 2) - D - 2 * D * m" and
      lo: "2 * d - 2 * D \<le> sint (balance ?h)" and
      up: "sint (balance ?h) < 3 * D" and
      hi: "sint (balance ?h) < 2 * d \<or> m = int k"
      by blast
    define B where "B = sint (balance ?h)"
    have xmh: "\<not> is_y_major_axis ?h"
      using xm by simp
    have sdxh: "sint (dx ?h) = 2 * D" and sdyh: "sint (dy ?h) = 2 * d"
      using sdx sdy by simp_all
    have fl: "do_minor_increment ?h = (0 \<le> B)"
      by (simp only: funpow.simps o_apply next_step_pending B_def)
    have bm': "B = 2 * d * (int k + 2) - D - 2 * D * m" and lo': "2 * d - 2 * D \<le> B"
      and up': "B < 3 * D" and hi': "B < 2 * d \<or> m = int k"
      using bm lo up hi by (simp_all only: B_def)
    have r1: "do_minor_increment ?h \<longrightarrow> - (2 ^ (LENGTH('w) - 1)) \<le> sint (balance ?h) - 2 * D"
    proof
      assume "do_minor_increment ?h"
      with fl have "0 \<le> B" by simp
      then have "- (2 * D) \<le> B - 2 * D" by simp
      moreover have "- (2 ^ (LENGTH('w) - 1)) \<le> - (2 * D)"
        using fit D0 by linarith
      ultimately show "- (2 ^ (LENGTH('w) - 1)) \<le> sint (balance ?h) - 2 * D"
        unfolding B_def by (rule order_trans [rotated])
    qed
    have "B - (if do_minor_increment ?h then 2 * D else 0) + 2 * d < 3 * D"
      using up' less d0 fl by auto
    then have r2: "sint (balance ?h) - (if do_minor_increment ?h then 2 * D else 0) + 2 * d
                     < 2 ^ (LENGTH('w) - 1)"
      unfolding B_def using fit by (rule less_trans)
    have nb: "sint (balance ((next_step ^^ Suc (Suc k)) g)) =
            B - (if 0 \<le> B then 2 * D else 0) + 2 * d"
      using x_major_sint_balance [OF xmh sdxh sdyh D0 d0 r1 r2] fl
      by (simp add: B_def)
    have ny: "y (trace g (Suc (Suc k))) =
            y (trace g (Suc k)) + (if 0 \<le> B then sint (y_increment g) else 0)"
      using next_step_x_major(2) [OF xmh] fl by (simp add: trace_def)
    show ?case
    proof (cases "0 \<le> B")
      case True
      have "y (trace g (Suc (Suc k))) = y a + (m + 1) * sint (y_increment g)"
        using ny ym True by (simp add: algebra_simps)
      moreover have "sint (balance ((next_step ^^ Suc (Suc k)) g)) =
          2 * d * (int (Suc k) + 2) - D - 2 * D * (m + 1)"
        using nb bm' True by (simp add: algebra_simps)
      moreover have "2 * d - 2 * D \<le> sint (balance ((next_step ^^ Suc (Suc k)) g))"
        using nb True by simp
      moreover have "sint (balance ((next_step ^^ Suc (Suc k)) g)) < 3 * D"
        using nb True up' less by simp
      moreover have "sint (balance ((next_step ^^ Suc (Suc k)) g)) < 2 * d \<or> m + 1 = int (Suc k)"
        using nb True hi' less by auto
      ultimately show ?thesis by blast
    next
      case False
      have "y (trace g (Suc (Suc k))) = y a + m * sint (y_increment g)"
        using ny ym False by simp
      moreover have "sint (balance ((next_step ^^ Suc (Suc k)) g)) =
          2 * d * (int (Suc k) + 2) - D - 2 * D * m"
        using nb bm' False by (simp add: algebra_simps)
      moreover have "2 * d - 2 * D \<le> sint (balance ((next_step ^^ Suc (Suc k)) g))"
        using nb False lo' d0 by simp
      moreover have "sint (balance ((next_step ^^ Suc (Suc k)) g)) < 3 * D"
        using nb False less d0 by simp
      moreover have "sint (balance ((next_step ^^ Suc (Suc k)) g)) < 2 * d"
        using nb False by simp
      ultimately show ?thesis by blast
    qed
  qed
qed

lemma x_major_reaches_last:
  fixes a b :: coord
  assumes less: "\<bar>y b - y a\<bar> < \<bar>x b - x a\<bar>"
    and fit: "3 * \<bar>x b - x a\<bar> < 2 ^ (LENGTH('w) - 1)"
  shows "trace (bresenham_line_new a b :: 'w::len word bresenham_line) (nat \<bar>x b - x a\<bar>) = b"
proof -
  let ?g = "bresenham_line_new a b :: 'w word bresenham_line"
  define D where "D = \<bar>x b - x a\<bar>"
  define d where "d = \<bar>y b - y a\<bar>"
  define n where "n = nat D"
  have d0: "0 \<le> d" by (simp add: d_def)
  have dD: "d < D" using less by (simp add: D_def d_def)
  then have Dpos: "0 < D" using d0 by simp
  then obtain k where k: "n = Suc k" by (cases n) (simp_all add: n_def)
  have n: "int n = D" using Dpos by (simp add: n_def)
  then have ik: "int k = D - 1" using k by simp
  have fitD: "3 * D < 2 ^ (LENGTH('w) - 1)"
    using fit by (simp only: D_def)
  have "(1 :: int) < 3 * D" using Dpos by simp
  then have wide: "1 < (2 :: int) ^ (LENGTH('w) - 1)"
    using fitD by (rule less_trans)
  note c = x_major_catch_up [where 'w = 'w and a = a and b = b and k = k,
    folded D_def d_def, OF dD fitD]
  from c obtain m where
    ym: "y (trace ?g n) = y a + m * sint (y_increment ?g)" and
    bm: "sint (balance ((next_step ^^ n) ?g)) = 2 * d * (D - 1 + 2) - D - 2 * D * m" and
    lo: "2 * d - 2 * D \<le> sint (balance ((next_step ^^ n) ?g))" and
    hi: "sint (balance ((next_step ^^ n) ?g)) < 2 * d \<or> m = D - 1"
    unfolding k [symmetric] ik by blast
  have "D * (2 * m) \<le> D * (2 * d + 1)"
    using bm lo by (simp add: algebra_simps)
  then have "2 * m \<le> 2 * d + 1"
    using Dpos by (simp only: mult_le_cancel_left_pos)
  then have up: "m \<le> d" by simp
  have "m = d"
  proof (rule disjE [OF hi])
    assume "sint (balance ((next_step ^^ n) ?g)) < 2 * d"
    with bm have "D * (2 * d - 1) < D * (2 * m)"
      by (simp add: algebra_simps)
    then have "2 * d - 1 < 2 * m"
      using Dpos by (simp only: mult_less_cancel_left_pos)
    with up show ?thesis by simp
  next
    assume "m = D - 1"
    with up dD show ?thesis by simp
  qed
  have mx: "max D d = D" using dD by linarith
  have "2 * D < 2 ^ (LENGTH('w) - 1)"
    using fitD Dpos by linarith
  then have "2 * max D d < 2 ^ (LENGTH('w) - 1)"
    by (simp only: mx)
  then have fit2: "2 * max \<bar>x b - x a\<bar> \<bar>y b - y a\<bar> < 2 ^ (LENGTH('w) - 1)"
    by (simp only: D_def d_def)
  have "is_y_major_axis ?g = (D < d)"
    using new_in_range(3) [where 'w = 'w, OF fit2] by (simp only: D_def d_def)
  then have xm: "\<not> is_y_major_axis ?g"
    using dD by simp
  have "x (trace ?g n) = x a + D * (if x b < x a then - 1 else 1)"
    using trace_x_major_x [OF xm, of n] by (simp only: new_increments [OF wide] new_fields(2) n)
  then have "x (trace ?g n) = x b"
    by (simp add: D_def)
  moreover have "y (trace ?g n) = y a + d * (if y b < y a then - 1 else 1)"
    using ym \<open>m = d\<close> by (simp only: new_increments [OF wide])
  then have "y (trace ?g n) = y b"
    by (simp add: d_def)
  ultimately show ?thesis
    by (simp add: n_def D_def)
qed

lemma reaches_last:
  fixes a b :: coord
  assumes ne: "\<bar>x b - x a\<bar> \<noteq> \<bar>y b - y a\<bar>"
    and fit: "3 * max \<bar>x b - x a\<bar> \<bar>y b - y a\<bar> < 2 ^ (LENGTH('w) - 1)"
  shows "trace (bresenham_line_new a b :: 'w::len word bresenham_line)
           (nat (max \<bar>x b - x a\<bar> \<bar>y b - y a\<bar>)) = b"
proof (cases "\<bar>x b - x a\<bar> < \<bar>y b - y a\<bar>")
  case False
  with ne have l: "\<bar>y b - y a\<bar> < \<bar>x b - x a\<bar>" by simp
  then have m: "max \<bar>x b - x a\<bar> \<bar>y b - y a\<bar> = \<bar>x b - x a\<bar>" by simp
  from fit have "3 * \<bar>x b - x a\<bar> < 2 ^ (LENGTH('w) - 1)"
    by (simp only: m)
  from x_major_reaches_last [where 'w = 'w, OF l this] show ?thesis
    by (simp only: m)
next
  case True
  let ?g = "bresenham_line_new a b :: 'w word bresenham_line"
  from True have m: "max \<bar>x b - x a\<bar> \<bar>y b - y a\<bar> = \<bar>y b - y a\<bar>" by simp
  from True have l: "\<bar>y (flip b) - y (flip a)\<bar> < \<bar>x (flip b) - x (flip a)\<bar>" by simp
  from fit have f: "3 * \<bar>x (flip b) - x (flip a)\<bar> < 2 ^ (LENGTH('w) - 1)"
    by (simp only: m flip_sel)
  from x_major_reaches_last [where 'w = 'w, OF l f]
  have t: "trace (bresenham_line_new (flip a) (flip b) :: 'w word bresenham_line)
             (nat \<bar>y b - y a\<bar>) = flip b"
    by (simp only: flip_sel)
  define M where "M = max \<bar>x b - x a\<bar> \<bar>y b - y a\<bar>"
  have "0 \<le> M" by (simp add: M_def)
  moreover have "3 * M < 2 ^ (LENGTH('w) - 1)"
    using fit by (simp only: M_def)
  ultimately have "2 * M < 2 ^ (LENGTH('w) - 1)"
    by linarith
  then have fit2: "2 * max \<bar>x b - x a\<bar> \<bar>y b - y a\<bar> < 2 ^ (LENGTH('w) - 1)"
    by (simp only: M_def)
  note o = off_diagonal_words [where 'w = 'w, OF ne fit2]
  have "flip (trace ?g (nat \<bar>y b - y a\<bar>)) = flip b"
    using t by (simp only: new_flip [OF o(1)] trace_flip [OF o(2)])
  then have "flip (flip (trace ?g (nat \<bar>y b - y a\<bar>))) = flip (flip b)"
    by (rule arg_cong)
  then show ?thesis by (simp add: m)
qed

lemma off_diagonal_endpoints:
  fixes a b :: coord
  assumes ne: "\<bar>x b - x a\<bar> \<noteq> \<bar>y b - y a\<bar>"
    and fit: "3 * max \<bar>x b - x a\<bar> \<bar>y b - y a\<bar> < 2 ^ (LENGTH('w) - 1)"
  shows "\<exists>ps. produced (bresenham_line_new a b :: 'w::len word bresenham_line) = Some ps \<and>
              hd ps = a \<and> last ps = b"
proof -
  let ?g = "bresenham_line_new a b :: 'w word bresenham_line"
  define M where "M = max \<bar>x b - x a\<bar> \<bar>y b - y a\<bar>"
  define n where "n = nat M"
  have "0 \<le> M" by (simp add: M_def)
  moreover have "3 * M < 2 ^ (LENGTH('w) - 1)"
    using fit by (simp only: M_def)
  ultimately have "2 * M < 2 ^ (LENGTH('w) - 1)"
    by linarith
  then have fit2: "2 * max \<bar>x b - x a\<bar> \<bar>y b - y a\<bar> < 2 ^ (LENGTH('w) - 1)"
    by (simp only: M_def)
  have "unat (n_coordinates_remaining ?g) = n"
    using new_in_range(5) [where 'w = 'w, OF fit2] by (simp only: n_def M_def)
  then have ps: "produced ?g = Some (map (trace ?g) [0..<Suc n])"
    by (simp only: produced_new)
  have "hd (map (trace ?g) [0..<Suc n]) = a"
    by (simp add: hd_map upt_conv_Cons new_fields del: upt_Suc)
  moreover have "last (map (trace ?g) [0..<Suc n]) = b"
    using reaches_last [where 'w = 'w, OF ne fit] by (simp add: n_def M_def)
  ultimately show ?thesis
    using ps by blast
qed

end
